theory Spec2Isabelle
  imports Complex_Main "HOL-Library.Sublist"
begin

section \<open>SmartMask: the masking engine of \<^verbatim>\<open>celltest.py\<close>\<close>

text \<open>
  A text is a Python \<^verbatim>\<open>str\<close>, modelled as a \<^typ>\<open>string\<close>: every \<^typ>\<open>char\<close> stands
  for one code point in the range U+0000 .. U+00FF, so \<^const>\<open>length\<close> counts what
  Python's \<^verbatim>\<open>len\<close> counts for such a text.
\<close>

subsection \<open>Python string primitives\<close>

text \<open>
  \<^verbatim>\<open>s[-n:]\<close> for a positive literal \<^verbatim>\<open>n\<close>: the last \<^verbatim>\<open>n\<close> characters, and the whole
  string when it is shorter (the subtraction on \<^typ>\<open>nat\<close> stops at 0, which is the
  clamping of the slice).
\<close>

definition last_chars :: "nat \<Rightarrow> string \<Rightarrow> string" where
  "last_chars n s = drop (length s - n) s"

text \<open>
  \<^verbatim>\<open>s.split(sep)\<close> for a separator of one character: the pieces between the
  separators, always at least one piece.
\<close>

fun split_chr :: "char \<Rightarrow> string \<Rightarrow> string list" where
  "split_chr sep [] = [[]]"
| "split_chr sep (c # cs) =
     (if c = sep then [] # split_chr sep cs
      else (case split_chr sep cs of
              [] \<Rightarrow> [[c]]
            | p # ps \<Rightarrow> (c # p) # ps))"

text \<open>
  \<^verbatim>\<open>s.replace(old, new)\<close>: scanning from the left, every occurrence of \<^verbatim>\<open>old\<close>
  that starts at the scan position is replaced and the scan goes on behind it; with an
  empty \<^verbatim>\<open>old\<close> Python puts \<^verbatim>\<open>new\<close> before every character and at the end.
\<close>

function replace :: "string \<Rightarrow> string \<Rightarrow> string \<Rightarrow> string" where
  "replace s old new =
     (if old = [] then new @ concat (map (\<lambda>c. c # new) s)
      else if s = [] then []
      else if prefix old s then new @ replace (drop (length old) s) old new
      else hd s # replace (tl s) old new)"
  by pat_completeness auto
termination
  by (relation "measure (\<lambda>(s, old, new). length s)") (auto simp: Suc_le_eq)

text \<open>
  \<^verbatim>\<open>xs[i]\<close> for a literal index \<^verbatim>\<open>i \<ge> 0\<close> raises \<^verbatim>\<open>IndexError\<close> when the list is too
  short. It is the only operation of the engine that can raise.
\<close>

datatype error = IndexError

definition list_item :: "'a list \<Rightarrow> nat \<Rightarrow> error + 'a" where
  "list_item xs i = (if i < length xs then Inr (xs ! i) else Inl IndexError)"

subsection \<open>Regular expressions of the rule table\<close>

text \<open>
  The character classes of \<^verbatim>\<open>re\<close> on a \<^verbatim>\<open>str\<close> pattern, for the code points below 256:
  \<^verbatim>\<open>\d\<close> is a decimal digit, \<^verbatim>\<open>\s\<close> is white space (with the separators U+001C to
  U+001F, U+0085 and U+00A0), \<^verbatim>\<open>\w\<close> is a letter, a digit or a number of Latin-1, or
  the underscore.
\<close>

definition code :: "char \<Rightarrow> nat" where
  "code c = of_char c"

definition is_digit :: "char \<Rightarrow> bool" where
  "is_digit c = (48 \<le> code c \<and> code c \<le> 57)"

definition is_space :: "char \<Rightarrow> bool" where
  "is_space c = (let n = code c in
     (9 \<le> n \<and> n \<le> 13) \<or> (28 \<le> n \<and> n \<le> 32) \<or> n = 133 \<or> n = 160)"

definition is_upper :: "char \<Rightarrow> bool" where
  "is_upper c = (65 \<le> code c \<and> code c \<le> 90)"

definition is_lower :: "char \<Rightarrow> bool" where
  "is_lower c = (97 \<le> code c \<and> code c \<le> 122)"

definition is_word :: "char \<Rightarrow> bool" where
  "is_word c = (let n = code c in
     (48 \<le> n \<and> n \<le> 57) \<or> (65 \<le> n \<and> n \<le> 90) \<or> n = 95 \<or> (97 \<le> n \<and> n \<le> 122)
     \<or> n = 170 \<or> n = 178 \<or> n = 179 \<or> n = 181 \<or> n = 185 \<or> n = 186
     \<or> (188 \<le> n \<and> n \<le> 190) \<or> (192 \<le> n \<and> n \<le> 214) \<or> (216 \<le> n \<and> n \<le> 246)
     \<or> 248 \<le> n)"

text \<open>
  The four patterns are sequences of two kinds of item: the word boundary \<^verbatim>\<open>\b\<close>, and
  a character class repeated greedily between \<open>lo\<close> and \<open>hi\<close> times (\<open>None\<close>: no upper
  bound), which covers a single character, \<^verbatim>\<open>{n}\<close>, \<^verbatim>\<open>+\<close> and \<^verbatim>\<open>{2,}\<close>.
\<close>

datatype item = Boundary | Chars "char \<Rightarrow> bool" nat "nat option"

type_synonym pattern = "item list"

text \<open>
  \<^verbatim>\<open>\b\<close> holds at position \<open>i\<close> when exactly one of the characters before and at \<open>i\<close>
  is a word character; beyond either end of the text there is none.
\<close>

definition at_boundary :: "string \<Rightarrow> nat \<Rightarrow> bool" where
  "at_boundary text i =
     ((0 < i \<and> i \<le> length text \<and> is_word (text ! (i - 1)))
      \<noteq> (i < length text \<and> is_word (text ! i)))"

text \<open>
  The backtracking matcher: \<open>ends pat text i\<close> lists the positions where a match
  of \<open>pat\<close> that starts at \<open>i\<close> can end, in the order in which the matcher tries them (a
  greedy repetition takes as many characters as it can and gives them back one by
  one). The match that \<^verbatim>\<open>re\<close> reports at \<open>i\<close> is the first of them.
\<close>

fun ends :: "pattern \<Rightarrow> string \<Rightarrow> nat \<Rightarrow> nat list" where
  "ends [] text i = [i]"
| "ends (Boundary # ps) text i = (if at_boundary text i then ends ps text i else [])"
| "ends (Chars p lo hi # ps) text i =
     (let avail = length (takeWhile p (drop i text));
          most = (case hi of None \<Rightarrow> avail | Some h \<Rightarrow> min h avail)
      in concat (map (\<lambda>n. ends ps text (i + n)) (rev [lo..<Suc most])))"

definition match_at :: "pattern \<Rightarrow> string \<Rightarrow> nat \<Rightarrow> nat option" where
  "match_at pat text i = (case ends pat text i of [] \<Rightarrow> None | e # _ \<Rightarrow> Some e)"

text \<open>
  \<^verbatim>\<open>pattern.finditer(text)\<close>: the matches from left to right, as pairs of start and end;
  the search for the next match starts where the last one ended (one further after an
  empty match, which none of the four patterns has).
\<close>

function finditer :: "pattern \<Rightarrow> string \<Rightarrow> nat \<Rightarrow> (nat \<times> nat) list" where
  "finditer pat text pos =
     (if length text < pos then []
      else (case match_at pat text pos of
              None \<Rightarrow> finditer pat text (Suc pos)
            | Some e \<Rightarrow> (pos, e) # finditer pat text (max e (Suc pos))))"
  by pat_completeness auto
termination
  by (relation "measure (\<lambda>(pat, text, pos). Suc (length text) - pos)") auto

text \<open>\<^verbatim>\<open>m.group()\<close>: the matched part of the text.\<close>

definition group :: "string \<Rightarrow> nat \<times> nat \<Rightarrow> string" where
  "group text m = take (snd m - fst m) (drop (fst m) text)"

definition aadhaar_pattern :: pattern where
  "aadhaar_pattern =
     [Boundary, Chars is_digit 4 (Some 4), Chars is_space 1 (Some 1),
      Chars is_digit 4 (Some 4), Chars is_space 1 (Some 1), Chars is_digit 4 (Some 4),
      Boundary]"

definition pan_pattern :: pattern where
  "pan_pattern =
     [Boundary, Chars is_upper 5 (Some 5), Chars is_digit 4 (Some 4),
      Chars is_upper 1 (Some 1), Boundary]"

definition phone_pattern :: pattern where
  "phone_pattern =
     [Boundary, Chars (\<lambda>c. c \<in> set ''6789'') 1 (Some 1), Chars is_digit 9 (Some 9),
      Boundary]"

definition email_pattern :: pattern where
  "email_pattern =
     [Boundary,
      Chars (\<lambda>c. is_lower c \<or> is_upper c \<or> is_digit c \<or> c \<in> set ''._%+-'') 1 None,
      Chars (\<lambda>c. c = CHR ''@'') 1 (Some 1),
      Chars (\<lambda>c. is_lower c \<or> is_upper c \<or> is_digit c \<or> c \<in> set ''.-'') 1 None,
      Chars (\<lambda>c. c = CHR ''.'') 1 (Some 1),
      Chars (\<lambda>c. is_upper c \<or> is_lower c) 2 None,
      Boundary]"

subsection \<open>Detection records\<close>

text \<open>
  A detection is a dictionary with the keys \<^verbatim>\<open>type\<close>, \<^verbatim>\<open>value\<close>, \<^verbatim>\<open>confidence\<close> and
  \<^verbatim>\<open>source\<close>. A key may be missing from a dictionary handed to \<^verbatim>\<open>mask_text\<close>, which
  reads with \<^verbatim>\<open>.get\<close> and a default: a missing key is \<^const>\<open>None\<close>.
\<close>

record detection =
  det_type :: "string option"
  det_value :: "string option"
  det_confidence :: "real option"
  det_source :: "string option"

definition get_or :: "'a option \<Rightarrow> 'a \<Rightarrow> 'a" where
  "get_or field dflt = (case field of None \<Rightarrow> dflt | Some x \<Rightarrow> x)"

definition hit :: "string \<Rightarrow> string \<Rightarrow> real \<Rightarrow> string \<Rightarrow> detection" where
  "hit pii_type val conf src =
     \<lparr>det_type = Some pii_type, det_value = Some val,
      det_confidence = Some conf, det_source = Some src\<rparr>"

subsection \<open>Detection\<close>

definition detect_pii_rules :: "string \<Rightarrow> detection list" where
  "detect_pii_rules text =
     map (\<lambda>m. hit ''AADHAAR'' (group text m) 0.98 ''rule'') (finditer aadhaar_pattern text 0)
     @ map (\<lambda>m. hit ''PAN'' (group text m) 0.97 ''rule'') (finditer pan_pattern text 0)
     @ map (\<lambda>m. hit ''PHONE'' (group text m) 0.95 ''rule'') (finditer phone_pattern text 0)
     @ map (\<lambda>m. hit ''EMAIL'' (group text m) 0.95 ''rule'') (finditer email_pattern text 0)"

text \<open>
  The statistical recognizer is not part of the repository: it is a parameter \<open>nlp\<close>,
  which gives for a text the entities of the document (\<^verbatim>\<open>doc.ents\<close>), each with its
  label and its text.
\<close>

record entity =
  ent_label :: string
  ent_text :: string

definition detect_pii_ml :: "(string \<Rightarrow> entity list) \<Rightarrow> string \<Rightarrow> detection list" where
  "detect_pii_ml nlp text =
     concat (map (\<lambda>ent.
        if ent_label ent = ''PERSON'' then [hit ''NAME'' (ent_text ent) 0.75 ''ml'']
        else if ent_label ent \<in> {''GPE'', ''LOC''} then [hit ''ADDRESS'' (ent_text ent) 0.70 ''ml'']
        else []) (nlp text))"

definition detect_pii :: "(string \<Rightarrow> entity list) \<Rightarrow> string \<Rightarrow> detection list" where
  "detect_pii nlp text =
     (let results = [];
          rule_hits = detect_pii_rules text;
          results = results @ rule_hits;
          ml_hits = detect_pii_ml nlp text;
          results = results @ ml_hits
      in results)"


subsection \<open>Masking\<close>

definition mask_value :: "string \<Rightarrow> string \<Rightarrow> error + string" where
  "mask_value val pii_type =
     (if pii_type = ''AADHAAR'' then Inr (''XXXX XXXX '' @ last_chars 4 val)
      else if pii_type = ''PAN'' then Inr (''XXXXX'' @ last_chars 3 val)
      else if pii_type = ''PHONE'' then Inr (''XXXXXX'' @ last_chars 4 val)
      else if pii_type = ''EMAIL'' then
        (let parts = split_chr CHR ''@'' val
         in if length parts = 2
            then (case list_item parts 1 of
                    Inl e \<Rightarrow> Inl e
                  | Inr domain \<Rightarrow> Inr (''xxxxx@'' @ domain))
            else Inr ''[REDACTED EMAIL]'')
      else if pii_type \<in> {''NAME'', ''ADDRESS''} then Inr (''[REDACTED '' @ pii_type @ '']'')
      else Inr ''[REDACTED]'')"

fun mask_text :: "string \<Rightarrow> detection list \<Rightarrow> error + string" where
  "mask_text masked_text [] = Inr masked_text"
| "mask_text masked_text (item # pii_items) =
     (let val = get_or (det_value item) '''';
          pii_type = get_or (det_type item) ''UNKNOWN''
      in if val \<noteq> ''''
         then (case mask_value val pii_type of
                 Inl e \<Rightarrow> Inl e
               | Inr masked \<Rightarrow> mask_text (replace masked_text val masked) pii_items)
         else mask_text masked_text pii_items)"

section \<open>Properties of the string primitives\<close>

declare replace.simps [simp del]

lemma replace_at_occurrence:
  "old \<noteq> [] \<Longrightarrow> replace (old @ b) old new = new @ replace b old new"
  by (subst replace.simps) simp

lemma replace_skip_char:
  "old \<noteq> [] \<Longrightarrow> \<not> prefix old (c # cs) \<Longrightarrow>
   replace (c # cs) old new = c # replace cs old new"
  by (subst replace.simps) simp

lemma replace_Nil: "old \<noteq> [] \<Longrightarrow> replace [] old new = []"
  by (subst replace.simps) simp

text \<open>Replacing a string that does not occur changes nothing.\<close>

lemma replace_absent:
  "old \<noteq> [] \<Longrightarrow> \<not> sublist old s \<Longrightarrow> replace s old new = s"
proof (induction s)
  case Nil
  then show ?case by (simp add: replace_Nil)
next
  case (Cons c cs)
  from Cons.prems have np: "\<not> prefix old (c # cs)" and ns: "\<not> sublist old cs"
    by (auto simp: sublist_Cons_right)
  from Cons.IH [OF Cons.prems(1) ns] np Cons.prems(1) show ?case
    by (simp add: replace_skip_char)
qed

text \<open>
  When \<open>old\<close> does not begin anywhere inside the gap \<open>a\<close>, the scan walks over the gap,
  replaces the occurrence behind it and goes on with the rest.
\<close>

lemma no_early_prefix:
  assumes "old \<noteq> []" and "\<not> sublist old ((c # cs) @ butlast old)"
  shows "\<not> prefix old ((c # cs) @ old @ b)"
proof
  assume p: "prefix old ((c # cs) @ old @ b)"
  have whole: "(c # cs) @ old @ b = ((c # cs) @ butlast old) @ (last old # b)"
    using assms(1) by simp
  have "prefix ((c # cs) @ butlast old) ((c # cs) @ old @ b)"
    unfolding whole by (rule prefixI) simp
  moreover have "length old \<le> length ((c # cs) @ butlast old)"
    by simp
  ultimately have "prefix old ((c # cs) @ butlast old)"
    using p by (rule prefix_length_prefix [rotated])
  then have "sublist old ((c # cs) @ butlast old)"
    by (rule prefix_imp_sublist)
  with assms(2) show False by simp
qed

lemma replace_skip_gap:
  "old \<noteq> [] \<Longrightarrow> \<not> sublist old (a @ butlast old) \<Longrightarrow>
   replace (a @ old @ b) old new = a @ replace (old @ b) old new"
proof (induction a)
  case Nil
  then show ?case by simp
next
  case (Cons c cs)
  have np: "\<not> prefix old ((c # cs) @ old @ b)"
    using Cons.prems by (rule no_early_prefix)
  have ns: "\<not> sublist old (cs @ butlast old)"
    using Cons.prems(2) by (simp add: sublist_Cons_right)
  have "replace ((c # cs) @ old @ b) old new = c # replace (cs @ old @ b) old new"
    using replace_skip_char [OF Cons.prems(1), of c "cs @ old @ b" new] np by simp
  with Cons.IH [OF Cons.prems(1) ns] show ?case by simp
qed

lemma replace_first_occurrence:
  "old \<noteq> [] \<Longrightarrow> \<not> sublist old (a @ butlast old) \<Longrightarrow>
   replace (a @ old @ b) old new = a @ new @ replace b old new"
  by (simp add: replace_skip_gap replace_at_occurrence)

text \<open>
  A text made of gaps, each followed by one occurrence of \<open>old\<close>, and a rest without
  any: all the occurrences are replaced, however many there are.
\<close>

lemma replace_all_gaps:
  assumes "old \<noteq> []"
    and "\<forall>g\<in>set gs. \<not> sublist old (g @ butlast old)"
    and "\<not> sublist old rest"
  shows "replace (concat (map (\<lambda>g. g @ old) gs) @ rest) old new
         = concat (map (\<lambda>g. g @ new) gs) @ rest"
  using assms(2)
proof (induction gs)
  case Nil
  show ?case using assms(1,3) by (simp add: replace_absent)
next
  case (Cons g gs)
  have "replace (g @ old @ (concat (map (\<lambda>g. g @ old) gs) @ rest)) old new
        = g @ new @ replace (concat (map (\<lambda>g. g @ old) gs) @ rest) old new"
    using assms(1) Cons.prems by (intro replace_first_occurrence) simp_all
  with Cons show ?case by simp
qed

lemma split_chr_nonempty: "split_chr sep s \<noteq> []"
  by (induction s) (auto split: list.splits)

lemma split_chr_no_sep: "sep \<notin> set s \<Longrightarrow> split_chr sep s = [s]"
  by (induction s) auto

lemma split_chr_first:
  "sep \<notin> set a \<Longrightarrow> split_chr sep (a @ sep # b) = a # split_chr sep b"
  by (induction a) auto

lemma length_split_chr: "length (split_chr sep s) = Suc (count_list s sep)"
  by (induction s) (auto split: list.splits simp: split_chr_nonempty)

section \<open>Properties of the masker\<close>

text \<open>No value and no type makes \<open>mask_value\<close> fail: the index 1 is guarded.\<close>

lemma mask_value_total: "\<exists>m. mask_value v t = Inr m"
  by (simp add: mask_value_def list_item_def Let_def)

lemma mask_text_skip:
  "get_or (det_value d) '''' = '''' \<Longrightarrow> mask_text s (d # ds) = mask_text s ds"
  by simp

lemma mask_text_step:
  "get_or (det_value d) '''' = v \<Longrightarrow> v \<noteq> '''' \<Longrightarrow>
   mask_value v (get_or (det_type d) ''UNKNOWN'') = Inr m \<Longrightarrow>
   mask_text s (d # ds) = mask_text (replace s v m) ds"
  by (simp add: Let_def)


lemma mask_text_append:
  "mask_text s (ds @ es) = (case mask_text s ds of Inl e \<Rightarrow> Inl e | Inr s' \<Rightarrow> mask_text s' es)"
  by (induction ds arbitrary: s) (simp_all add: Let_def split: sum.splits)

text \<open>Detections whose value is empty, missing or absent from the text change nothing.\<close>

lemma mask_text_absent:
  "\<forall>d\<in>set ds. get_or (det_value d) '''' = '''' \<or> \<not> sublist (get_or (det_value d) '''') s
   \<Longrightarrow> mask_text s ds = Inr s"
proof (induction ds)
  case Nil
  show ?case by simp
next
  case (Cons d ds)
  then have rest: "mask_text s ds = Inr s" by simp
  show ?case
  proof (cases "get_or (det_value d) '''' = ''''")
    case True
    with rest show ?thesis by (simp add: mask_text_skip)
  next
    case False
    obtain m where m: "mask_value (get_or (det_value d) '''') (get_or (det_type d) ''UNKNOWN'') = Inr m"
      using mask_value_total by blast
    from False Cons.prems have "\<not> sublist (get_or (det_value d) '''') s" by simp
    with False have "replace s (get_or (det_value d) '''') m = s"
      by (simp add: replace_absent)
    with rest show ?thesis
      unfolding mask_text_step [OF refl False m] by simp
  qed
qed

text \<open>
  C6: masking with an empty selection is the identity, and it is a normal return: the
  loop body never runs and the text is returned as it came.
\<close>

theorem mask_text_empty_selection: "mask_text text [] = Inr text"
  by simp

text \<open>
  C10: when no selected detection has a value that occurs in the text (a missing or
  empty value counts as such), masking returns the text unchanged.
\<close>

theorem mask_text_frame:
  "\<forall>d\<in>set ds. get_or (det_value d) '''' = '''' \<or> \<not> sublist (get_or (det_value d) '''') s
   \<Longrightarrow> mask_text s ds = Inr s"
  by (rule mask_text_absent)

theorem mask_text_frame_witness:
  "mask_text ''Lives in Tumkur.''
     [hit ''PHONE'' ''9876543210'' 0.95 ''rule'',
      \<lparr>det_type = Some ''NAME'', det_value = None,
       det_confidence = None, det_source = None\<rparr>] = Inr ''Lives in Tumkur.''"
  by (rule mask_text_frame) (simp add: hit_def get_or_def sublist_code(3))

text \<open>
  C9: a value shorter than the suffix that a mask keeps is kept whole: the slice of
  the last four (for a PAN, three) characters of a shorter string is the string, so the
  mask is the literal prefix followed by the value itself.
\<close>

theorem mask_value_short_values:
  "(length v < 4 \<longrightarrow>
      mask_value v ''AADHAAR'' = Inr (''XXXX XXXX '' @ v)
      \<and> mask_value v ''PHONE'' = Inr (''XXXXXX'' @ v))
   \<and> (length v < 3 \<longrightarrow> mask_value v ''PAN'' = Inr (''XXXXX'' @ v))"
  by (simp add: mask_value_def last_chars_def)

theorem mask_value_short_values_witness:
  "mask_value ''12'' ''AADHAAR'' = Inr ''XXXX XXXX 12''
   \<and> mask_value ''12'' ''PHONE'' = Inr ''XXXXXX12''
   \<and> mask_value ''12'' ''PAN'' = Inr ''XXXXX12''"
  using mask_value_short_values [of "''12''"] by simp

text \<open>
  C5: for the type EMAIL the value is split at every \<^verbatim>\<open>@\<close>. With exactly two parts,
  which is with exactly one \<^verbatim>\<open>@\<close> in the value, the mask is \<^verbatim>\<open>xxxxx@\<close> and the second part;
  otherwise it is \<^verbatim>\<open>[REDACTED EMAIL]\<close>. So for a value \<open>a @ ''@'' @ b\<close> with no other \<^verbatim>\<open>@\<close> the
  mask is \<^verbatim>\<open>xxxxx@\<close> and \<open>b\<close>, and it ends with \<^verbatim>\<open>@\<close> and \<open>b\<close>.
\<close>

theorem mask_value_email:
  "mask_value v ''EMAIL''
     = (if length (split_chr CHR ''@'' v) = 2
        then Inr (''xxxxx@'' @ split_chr CHR ''@'' v ! 1)
        else Inr ''[REDACTED EMAIL]'')
   \<and> (length (split_chr CHR ''@'' v) = 2 \<longleftrightarrow> count_list v CHR ''@'' = 1)
   \<and> (CHR ''@'' \<notin> set a \<and> CHR ''@'' \<notin> set b \<longrightarrow>
        mask_value (a @ ''@'' @ b) ''EMAIL'' = Inr (''xxxxx@'' @ b)
        \<and> (\<exists>m. mask_value (a @ ''@'' @ b) ''EMAIL'' = Inr m \<and> suffix (''@'' @ b) m))"
proof (intro conjI impI)
  show "mask_value v ''EMAIL''
     = (if length (split_chr CHR ''@'' v) = 2
        then Inr (''xxxxx@'' @ split_chr CHR ''@'' v ! 1)
        else Inr ''[REDACTED EMAIL]'')"
    by (simp add: mask_value_def list_item_def Let_def)
  show "length (split_chr CHR ''@'' v) = 2 \<longleftrightarrow> count_list v CHR ''@'' = 1"
    by (simp add: length_split_chr)
next
  assume "CHR ''@'' \<notin> set a \<and> CHR ''@'' \<notin> set b"
  then have parts: "split_chr CHR ''@'' (a @ ''@'' @ b) = [a, b]"
    by (simp add: split_chr_first split_chr_no_sep)
  show m: "mask_value (a @ ''@'' @ b) ''EMAIL'' = Inr (''xxxxx@'' @ b)"
    unfolding mask_value_def parts by (simp add: list_item_def Let_def)
  have "suffix (''@'' @ b) (''xxxxx@'' @ b)"
    by (rule suffixI [of _ "''xxxxx''"]) simp
  with m show "\<exists>m. mask_value (a @ ''@'' @ b) ''EMAIL'' = Inr m \<and> suffix (''@'' @ b) m"
    by blast
qed

theorem mask_value_email_witness:
  "mask_value ''akanksh@example.com'' ''EMAIL'' = Inr ''xxxxx@example.com''
   \<and> mask_value ''a@b@c'' ''EMAIL'' = Inr ''[REDACTED EMAIL]''"
proof -
  have "mask_value (''akanksh'' @ ''@'' @ ''example.com'') ''EMAIL''
        = Inr (''xxxxx@'' @ ''example.com'')"
    using mask_value_email [of "''akanksh''" "''akanksh''" "''example.com''"] by simp
  moreover have "mask_value ''a@b@c'' ''EMAIL'' = Inr ''[REDACTED EMAIL]''"
    using mask_value_email [of "''a@b@c''" "[]" "[]"] by (simp add: length_split_chr)
  ultimately show ?thesis by simp
qed

text \<open>
  C2 as stated fails: the mask of an Aadhaar value keeps its last four digits, and
  together with the text behind them they can spell the value again. In the text here
  the rules find the value \<^verbatim>\<open>9012 5678 9012\<close> twice, at offsets 0 and 26, so the
  detections are a duplicated list; the first pass leaves the value in the text at
  offset 10, and the second pass masks it.
\<close>

theorem mask_text_duplicate_counterexample:
  "detect_pii (\<lambda>_. []) ''9012 5678 9012 5678 9012, 9012 5678 9012''
   = [hit ''AADHAAR'' ''9012 5678 9012'' 0.98 ''rule'',
      hit ''AADHAAR'' ''9012 5678 9012'' 0.98 ''rule'']
   \<and> mask_text ''9012 5678 9012 5678 9012, 9012 5678 9012''
       [hit ''AADHAAR'' ''9012 5678 9012'' 0.98 ''rule'']
     = Inr ''XXXX XXXX 9012 5678 9012, XXXX XXXX 9012''
   \<and> mask_text ''9012 5678 9012 5678 9012, 9012 5678 9012''
       [hit ''AADHAAR'' ''9012 5678 9012'' 0.98 ''rule'',
        hit ''AADHAAR'' ''9012 5678 9012'' 0.98 ''rule'']
     = Inr ''XXXX XXXX XXXX XXXX 9012, XXXX XXXX 9012''"
proof (intro conjI)
  have "finditer aadhaar_pattern ''9012 5678 9012 5678 9012, 9012 5678 9012'' 0
        = [(0, 14), (26, 40)]"
    and "finditer pan_pattern ''9012 5678 9012 5678 9012, 9012 5678 9012'' 0 = []"
    and "finditer phone_pattern ''9012 5678 9012 5678 9012, 9012 5678 9012'' 0 = []"
    and "finditer email_pattern ''9012 5678 9012 5678 9012, 9012 5678 9012'' 0 = []"
    by code_simp+
  then show "detect_pii (\<lambda>_. []) ''9012 5678 9012 5678 9012, 9012 5678 9012''
   = [hit ''AADHAAR'' ''9012 5678 9012'' 0.98 ''rule'',
      hit ''AADHAAR'' ''9012 5678 9012'' 0.98 ''rule'']"
    by (simp add: detect_pii_def detect_pii_rules_def detect_pii_ml_def group_def)
  show "mask_text ''9012 5678 9012 5678 9012, 9012 5678 9012''
       [hit ''AADHAAR'' ''9012 5678 9012'' 0.98 ''rule'']
     = Inr ''XXXX XXXX 9012 5678 9012, XXXX XXXX 9012''"
    by (simp add: hit_def get_or_def mask_value_def last_chars_def replace.simps)
  show "mask_text ''9012 5678 9012 5678 9012, 9012 5678 9012''
       [hit ''AADHAAR'' ''9012 5678 9012'' 0.98 ''rule'',
        hit ''AADHAAR'' ''9012 5678 9012'' 0.98 ''rule'']
     = Inr ''XXXX XXXX XXXX XXXX 9012, XXXX XXXX 9012''"
    by (simp add: hit_def get_or_def mask_value_def last_chars_def replace.simps)
qed

text \<open>
  C2, amended: masking with \<open>[d, d]\<close> is masking with \<open>[d]\<close> twice in a row, and the
  second pass is a no-op whenever the value of \<open>d\<close> is empty or missing, or no longer
  occurs in the text after the first pass.
\<close>

theorem mask_text_duplicate:
  "mask_text s [d] = Inr s' \<Longrightarrow>
   mask_text s [d, d] = mask_text s' [d]
   \<and> (get_or (det_value d) '''' = '''' \<or> \<not> sublist (get_or (det_value d) '''') s'
        \<longrightarrow> mask_text s [d, d] = mask_text s [d])"
proof (intro conjI impI)
  assume one: "mask_text s [d] = Inr s'"
  then show seq: "mask_text s [d, d] = mask_text s' [d]"
    using mask_text_append [of s "[d]" "[d]"] by simp
  assume "get_or (det_value d) '''' = '''' \<or> \<not> sublist (get_or (det_value d) '''') s'"
  then have "mask_text s' [d] = Inr s'"
    by (intro mask_text_absent) simp
  with seq one show "mask_text s [d, d] = mask_text s [d]" by simp
qed

theorem mask_text_duplicate_witness:
  "mask_text ''Aadhaar: 1234 5678 9012''
     [hit ''AADHAAR'' ''1234 5678 9012'' 0.98 ''rule'',
      hit ''AADHAAR'' ''1234 5678 9012'' 0.98 ''rule'']
   = Inr ''Aadhaar: XXXX XXXX 9012''"
proof -
  let ?d = "hit ''AADHAAR'' ''1234 5678 9012'' 0.98 ''rule''"
  have one: "mask_text ''Aadhaar: 1234 5678 9012'' [?d] = Inr ''Aadhaar: XXXX XXXX 9012''"
    by (simp add: hit_def get_or_def mask_value_def last_chars_def replace.simps)
  have gone: "\<not> sublist (get_or (det_value ?d) '''') ''Aadhaar: XXXX XXXX 9012''"
    by (simp add: hit_def get_or_def sublist_code(3))
  have "mask_text ''Aadhaar: 1234 5678 9012'' [?d, ?d] = mask_text ''Aadhaar: 1234 5678 9012'' [?d]"
    using mask_text_duplicate [OF one] gone by blast
  then show ?thesis
    unfolding one .
qed

text \<open>
  C3 as stated fails for occurrences that overlap: the value occurs at offsets 0 and
  10 of the text, the scan replaces the first and goes on behind it, and the second
  occurrence is still there, unmasked, at the end of the result.
\<close>

theorem mask_text_overlap_counterexample:
  "drop 10 ''9012 5678 9012 5678 9012'' = ''9012 5678 9012''
   \<and> mask_value ''9012 5678 9012'' ''AADHAAR'' = Inr ''XXXX XXXX 9012''
   \<and> mask_text ''9012 5678 9012 5678 9012'' [hit ''AADHAAR'' ''9012 5678 9012'' 0.98 ''rule'']
     = Inr (''XXXX XXXX '' @ ''9012 5678 9012'')"
  by (simp add: hit_def get_or_def mask_value_def last_chars_def replace.simps)

text \<open>
  C3, amended: the detections are processed in the order given, each on the text the
  earlier ones left; a detection with a non-empty value replaces every occurrence of
  the value that a scan from the left meets, the scan going on behind each replaced
  occurrence. So in a text made of any number of gaps, each followed by the value, and
  a rest, where the value begins nowhere else, all the occurrences are replaced by
  \<open>mask_value\<close> of the value and the type, and the remaining detections work on
  that text.
\<close>

theorem mask_text_sequential_replace_all:
  assumes "get_or (det_value d) '''' = v" and "v \<noteq> ''''"
    and "mask_value v (get_or (det_type d) ''UNKNOWN'') = Inr m"
    and "\<forall>g\<in>set gs. \<not> sublist v (g @ butlast v)"
    and "\<not> sublist v rest"
  shows "mask_text (concat (map (\<lambda>g. g @ v) gs) @ rest) (d # ds)
         = mask_text (concat (map (\<lambda>g. g @ m) gs) @ rest) ds"
  using assms by (simp add: mask_text_step [OF refl] replace_all_gaps)

theorem mask_text_sequential_replace_all_witness:
  "mask_text ''Aadhaar: 1234 5678 9012, again 1234 5678 9012. Phone 9876543210''
     [hit ''AADHAAR'' ''1234 5678 9012'' 0.98 ''rule'',
      hit ''PHONE'' ''9876543210'' 0.95 ''rule'']
   = Inr ''Aadhaar: XXXX XXXX 9012, again XXXX XXXX 9012. Phone XXXXXX3210''"
proof -
  let ?a = "hit ''AADHAAR'' ''1234 5678 9012'' 0.98 ''rule''"
  let ?p = "hit ''PHONE'' ''9876543210'' 0.95 ''rule''"
  have "mask_text (concat (map (\<lambda>g. g @ ''1234 5678 9012'') [''Aadhaar: '', '', again ''])
                   @ ''. Phone 9876543210'') (?a # [?p])
        = mask_text (concat (map (\<lambda>g. g @ ''XXXX XXXX 9012'') [''Aadhaar: '', '', again ''])
                   @ ''. Phone 9876543210'') [?p]"
    by (rule mask_text_sequential_replace_all)
       (simp_all add: hit_def get_or_def mask_value_def last_chars_def sublist_code(3))
  moreover
  have "mask_text (concat (map (\<lambda>g. g @ ''9876543210'')
                     [''Aadhaar: XXXX XXXX 9012, again XXXX XXXX 9012. Phone '']) @ '''') (?p # [])
        = mask_text (concat (map (\<lambda>g. g @ ''XXXXXX3210'')
                     [''Aadhaar: XXXX XXXX 9012, again XXXX XXXX 9012. Phone '']) @ '''') []"
    by (rule mask_text_sequential_replace_all)
       (simp_all add: hit_def get_or_def mask_value_def last_chars_def sublist_code(3))
  ultimately show ?thesis
    by simp
qed



section \<open>Properties of the detectors\<close>

declare finditer.simps [simp del]

text \<open>The matched part of a text is a part of the text.\<close>

lemma sublist_group: "sublist (group text m) text"
proof -
  have "sublist (take (snd m - fst m) (drop (fst m) text)) (drop (fst m) text)"
    by (rule sublist_take)
  also have "sublist (drop (fst m) text) text"
    by (rule sublist_drop)
  finally show ?thesis
    by (simp add: group_def)
qed

lemma takeWhile_long:
  "n \<le> length (takeWhile p xs) \<longleftrightarrow> n \<le> length xs \<and> (\<forall>k<n. p (xs ! k))"
proof
  assume n: "n \<le> length (takeWhile p xs)"
  have "p (xs ! k)" if "k < n" for k
  proof -
    from that n have k: "k < length (takeWhile p xs)" by simp
    then have "takeWhile p xs ! k \<in> set (takeWhile p xs)" by (rule nth_mem)
    then have "p (takeWhile p xs ! k)" by (rule set_takeWhileD [THEN conjunct2])
    with k show ?thesis by (simp add: takeWhile_nth)
  qed
  moreover have "n \<le> length xs"
    using n length_takeWhile_le [of p xs] by simp
  ultimately show "n \<le> length xs \<and> (\<forall>k<n. p (xs ! k))" by simp
next
  assume "n \<le> length xs \<and> (\<forall>k<n. p (xs ! k))"
  then show "n \<le> length (takeWhile p xs)"
    by (intro length_takeWhile_less_P_nth) simp_all
qed

lemma ends_Chars_exact:
  assumes "0 < n"
  shows "ends (Chars p n (Some n) # ps) text i
         = (if i + n \<le> length text \<and> (\<forall>k<n. p (text ! (i + k)))
            then ends ps text (i + n) else [])"
proof -
  let ?avail = "length (takeWhile p (drop i text))"
  have iff: "n \<le> ?avail \<longleftrightarrow> i + n \<le> length text \<and> (\<forall>k<n. p (text ! (i + k)))"
    using assms by (auto simp: takeWhile_long)
  show ?thesis
  proof (cases "n \<le> ?avail")
    case True
    then have "rev [n..<Suc (min n ?avail)] = [n]"
      by (simp add: min_def)
    then have lhs: "ends (Chars p n (Some n) # ps) text i = ends ps text (i + n)"
      by (simp add: Let_def)
    from True iff have c: "i + n \<le> length text \<and> (\<forall>k<n. p (text ! (i + k)))"
      by blast
    show ?thesis
      unfolding lhs if_P [OF c] ..
  next
    case False
    then have "rev [n..<Suc (min n ?avail)] = []"
      by (simp add: min_def)
    then have lhs: "ends (Chars p n (Some n) # ps) text i = []"
      by (simp add: Let_def)
    from False iff have c: "\<not> (i + n \<le> length text \<and> (\<forall>k<n. p (text ! (i + k))))"
      by blast
    show ?thesis
      unfolding lhs if_not_P [OF c] ..
  qed
qed

lemma finditer_reports:
  assumes "match_at pat text i = Some e" and "i \<le> length text"
    and "\<forall>j<i. \<forall>e'. match_at pat text j = Some e' \<longrightarrow> e' \<le> i"
  shows "pos \<le> i \<Longrightarrow> (i, e) \<in> set (finditer pat text pos)"
proof (induction "i - pos" arbitrary: pos rule: less_induct)
  case less
  show ?case
  proof (cases "pos = i")
    case True
    with assms(1,2) show ?thesis
      by (subst finditer.simps) simp
  next
    case False
    with less.prems have lt: "pos < i" by simp
    show ?thesis
    proof (cases "match_at pat text pos")
      case None
      have "(i, e) \<in> set (finditer pat text (Suc pos))"
        using lt by (intro less.hyps) simp_all
      with None lt assms(2) show ?thesis
        by (subst finditer.simps) simp
    next
      case (Some e')
      with assms(3) lt have "e' \<le> i" by blast
      with lt have "(i, e) \<in> set (finditer pat text (max e' (Suc pos)))"
        by (intro less.hyps) auto
      with Some lt assms(2) show ?thesis
        by (subst finditer.simps) simp
    qed
  qed
qed

lemma ends_aadhaar:
  "ends aadhaar_pattern text j =
     (if at_boundary text j \<and> j + 14 \<le> length text
         \<and> (\<forall>k<4. is_digit (text ! (j + k))) \<and> is_space (text ! (j + 4))
         \<and> (\<forall>k<4. is_digit (text ! (j + 5 + k))) \<and> is_space (text ! (j + 9))
         \<and> (\<forall>k<4. is_digit (text ! (j + 10 + k))) \<and> at_boundary text (j + 14)
      then [j + 14] else [])"
  by (auto simp: aadhaar_pattern_def ends_Chars_exact ac_simps simp del: ends.simps(3))

lemma digit_is_word: "is_digit c \<Longrightarrow> is_word c"
  by (simp add: is_digit_def is_word_def Let_def)

lemma space_not_digit: "is_space c \<Longrightarrow> \<not> is_digit c"
  by (auto simp: is_digit_def is_space_def Let_def)

lemma space_not_word: "is_space c \<Longrightarrow> \<not> is_word c"
  by (auto simp: is_word_def is_space_def Let_def)

text \<open>
  A match that starts before position \<open>i\<close> and reaches beyond it, where the literal
  starts, has a group of four digits and a white space directly before \<open>i\<close>, and that
  group starts at a word boundary.
\<close>

lemma aadhaar_no_overlap:
  assumes occ: "\<forall>k<4. is_digit (text ! (i + k))"
    and h1: "i = 0 \<or> \<not> is_word (text ! (i - 1))"
    and h2: "\<not> (5 \<le> i \<and> (\<forall>k<4. is_digit (text ! (i - 5 + k))) \<and> is_space (text ! (i - 1))
              \<and> (i = 5 \<or> \<not> is_word (text ! (i - 6))))"
    and j: "j < i" "i < j + 14"
  shows "ends aadhaar_pattern text j = []"
proof (rule ccontr)
  assume "ends aadhaar_pattern text j \<noteq> []"
  then have b: "at_boundary text j" and len: "j + 14 \<le> length text"
    and d1: "\<forall>k<4. is_digit (text ! (j + k))" and s4: "is_space (text ! (j + 4))"
    and d2: "\<forall>k<4. is_digit (text ! (j + 5 + k))" and s9: "is_space (text ! (j + 9))"
    and d3: "\<forall>k<4. is_digit (text ! (j + 10 + k))"
    by (simp_all add: ends_aadhaar split: if_splits)
  consider "i \<le> j + 4" | "i = j + 5" | "j + 5 < i" "i \<le> j + 9" | "i = j + 10" | "j + 10 < i"
    by linarith
  then show False
  proof cases
    case 1
    with j have "j + 4 - i < 4" and "i + (j + 4 - i) = j + 4" by simp_all
    with occ have "is_digit (text ! (j + 4))" by metis
    with s4 show False by (simp add: space_not_digit)
  next
    case 2
    then have e: "i - 5 = j" "i - 1 = j + 4" and five: "5 \<le> i" by simp_all
    have "is_digit (text ! (j + 0))" by (rule d1 [rule_format]) simp
    then have "is_word (text ! j)" by (simp add: digit_is_word)
    with b len have "\<not> (0 < j \<and> is_word (text ! (j - 1)))"
      by (auto simp: at_boundary_def)
    moreover from 2 have "i = 5 \<longleftrightarrow> j = 0" and "i - 6 = j - 1" by simp_all
    ultimately have "i = 5 \<or> \<not> is_word (text ! (i - 6))" by auto
    with h2 five d1 s4 show False unfolding e by blast
  next
    case 3
    with j have "j + 9 - i < 4" and "i + (j + 9 - i) = j + 9" by simp_all
    with occ have "is_digit (text ! (j + 9))" by metis
    with s9 show False by (simp add: space_not_digit)
  next
    case 4
    then have e: "i - 5 = j + 5" "i - 1 = j + 9" "i - 6 = j + 4" and five: "5 \<le> i"
      by simp_all
    from s4 have "\<not> is_word (text ! (j + 4))" by (rule space_not_word)
    with h2 five d2 s9 show False unfolding e by blast
  next
    case 5
    with j have "i - 1 - (j + 10) < 4" and "j + 10 + (i - 1 - (j + 10)) = i - 1" by simp_all
    with d3 have "is_digit (text ! (i - 1))" by metis
    then have "is_word (text ! (i - 1))" by (rule digit_is_word)
    moreover from 5 have "i \<noteq> 0" by simp
    ultimately show False using h1 by blast
  qed
qed

lemma aadhaar_literal_shape:
  fixes post :: string
  defines "t \<equiv> ''1234 5678 9012'' @ post"
  shows "\<forall>k<4. is_digit (t ! k)" and "is_space (t ! 4)"
    and "\<forall>k<4. is_digit (t ! (5 + k))" and "is_space (t ! 9)"
    and "\<forall>k<4. is_digit (t ! (10 + k))" and "is_word (t ! 0)" and "is_word (t ! 13)"
proof -
  have k4: "k < 4 \<longleftrightarrow> k = 0 \<or> k = 1 \<or> k = 2 \<or> k = 3" for k :: nat
    by auto
  show "\<forall>k<4. is_digit (t ! k)" and "\<forall>k<4. is_digit (t ! (5 + k))"
    and "\<forall>k<4. is_digit (t ! (10 + k))"
    by (auto simp: k4 t_def is_digit_def code_def)
  show "is_space (t ! 4)" and "is_space (t ! 9)"
    by (simp_all add: t_def is_space_def code_def)
  show "is_word (t ! 0)" and "is_word (t ! 13)"
    by (simp_all add: t_def is_word_def code_def)
qed

lemma ends_aadhaar_literal:
  assumes h1: "pre = [] \<or> \<not> is_word (last pre)"
    and h3: "post = [] \<or> \<not> is_word (hd post)"
  shows "ends aadhaar_pattern (pre @ ''1234 5678 9012'' @ post) (length pre)
         = [length pre + 14]"
proof -
  let ?t = "''1234 5678 9012'' @ post"
  let ?text = "pre @ ?t"
  let ?i = "length pre"
  have at: "?text ! (?i + k) = ?t ! k" for k
    by (rule nth_append_length_plus)
  have len: "length ?text = ?i + 14 + length post"
    by simp
  have before: "?text ! (?i - 1) = last pre" if "pre \<noteq> []"
    using that by (simp add: nth_append last_conv_nth)
  have b0: "at_boundary ?text ?i"
  proof -
    have "is_word (?text ! ?i)"
      using at [of 0] aadhaar_literal_shape(6) [of post] by simp
    moreover have "\<not> (0 < ?i \<and> is_word (?text ! (?i - 1)))"
      using h1 before by auto
    ultimately show ?thesis
      unfolding at_boundary_def len by auto
  qed
  have b14: "at_boundary ?text (?i + 14)"
  proof -
    have e: "?i + 14 - 1 = ?i + 13"
      by simp
    have "is_word (?text ! (?i + 14 - 1))"
      unfolding e at by (rule aadhaar_literal_shape)
    moreover have "\<not> (?i + 14 < length ?text \<and> is_word (?text ! (?i + 14)))"
    proof (cases "post = []")
      case True
      then show ?thesis by simp
    next
      case False
      then have "?text ! (?i + 14) = hd post"
        unfolding at by (simp add: hd_conv_nth)
      with False h3 show ?thesis by simp
    qed
    ultimately show ?thesis
      unfolding at_boundary_def len by auto
  qed
  have "\<forall>k<4. is_digit (?text ! (?i + k))" and "is_space (?text ! (?i + 4))"
    and "\<forall>k<4. is_digit (?text ! (?i + 5 + k))" and "is_space (?text ! (?i + 9))"
    and "\<forall>k<4. is_digit (?text ! (?i + 10 + k))"
    unfolding at add.assoc by (rule aadhaar_literal_shape)+
  with b0 b14 len show ?thesis
    unfolding ends_aadhaar by simp
qed

text \<open>The detections of a short text, with a recognizer that finds three entities.\<close>

lemma detect_pii_sample:
  "map (\<lambda>d. (det_type d, det_value d))
     (detect_pii
        (\<lambda>_. [\<lparr>ent_label = ''PERSON'', ent_text = ''Akanksh''\<rparr>,
              \<lparr>ent_label = ''GPE'', ent_text = ''Tumkur''\<rparr>,
              \<lparr>ent_label = ''ORG'', ent_text = ''of''\<rparr>])
        ''Akanksh of Tumkur: 9876543210'')
   = [(Some ''PHONE'', Some ''9876543210''), (Some ''NAME'', Some ''Akanksh''),
      (Some ''ADDRESS'', Some ''Tumkur'')]"
proof -
  have "finditer aadhaar_pattern ''Akanksh of Tumkur: 9876543210'' 0 = []"
    and "finditer pan_pattern ''Akanksh of Tumkur: 9876543210'' 0 = []"
    and "finditer phone_pattern ''Akanksh of Tumkur: 9876543210'' 0 = [(19, 29)]"
    and "finditer email_pattern ''Akanksh of Tumkur: 9876543210'' 0 = []"
    by code_simp+
  then show ?thesis
    by (simp add: detect_pii_def detect_pii_rules_def detect_pii_ml_def group_def hit_def)
qed

text \<open>
  C4: the detections of a text are the detections of the rules followed by the
  detections of the recognizer, each list whole and in its own order: nothing is
  removed, merged or moved.
\<close>

theorem detect_pii_concatenation:
  "detect_pii nlp text = detect_pii_rules text @ detect_pii_ml nlp text"
  by (simp add: detect_pii_def)

text \<open>
  C7: every detection has a value, and the value occurs in the text. For a rule it is
  the matched part of the text; for the recognizer it is the text of an entity, which
  is a span of the document: that is the contract of the recognizer, and the
  hypothesis here.
\<close>

theorem detect_pii_values_occur:
  assumes "\<forall>ent\<in>set (nlp text). sublist (ent_text ent) text"
  shows "\<forall>d\<in>set (detect_pii nlp text). \<exists>v. det_value d = Some v \<and> sublist v text"
  using assms
  by (auto simp: detect_pii_def detect_pii_rules_def detect_pii_ml_def hit_def sublist_group
      split: if_splits)

theorem detect_pii_values_occur_witness:
  "list_all (\<lambda>d. \<exists>v. det_value d = Some v \<and> sublist v ''Akanksh of Tumkur: 9876543210'')
     (detect_pii
        (\<lambda>_. [\<lparr>ent_label = ''PERSON'', ent_text = ''Akanksh''\<rparr>,
              \<lparr>ent_label = ''GPE'', ent_text = ''Tumkur''\<rparr>,
              \<lparr>ent_label = ''ORG'', ent_text = ''of''\<rparr>])
        ''Akanksh of Tumkur: 9876543210'')"
  unfolding list_all_iff
  by (rule detect_pii_values_occur) (simp add: sublist_code(3))

lemma no_rule_hits:
  assumes "finditer aadhaar_pattern text 0 = []" and "finditer pan_pattern text 0 = []"
    and "finditer phone_pattern text 0 = []" and "finditer email_pattern text 0 = []"
  shows "detect_pii (\<lambda>_. []) text = []"
  using assms by (simp add: detect_pii_def detect_pii_rules_def detect_pii_ml_def)

text \<open>
  C1 as stated fails: the pattern is bounded by \<^verbatim>\<open>\b\<close> on both sides and the matches
  of one pattern do not overlap. A text can contain \<^verbatim>\<open>1234 5678 9012\<close> glued to a word
  character before or behind it, and then nothing is detected; or behind another group
  of four digits, and then the match that starts at that group takes the first two
  groups of the literal with it and a different value is reported. The recognizer
  here finds no entity.
\<close>

theorem detect_pii_aadhaar_literal_counterexample:
  "sublist ''1234 5678 9012'' ''A1234 5678 9012''
   \<and> detect_pii (\<lambda>_. []) ''A1234 5678 9012'' = []
   \<and> sublist ''1234 5678 9012'' ''1234 5678 90123''
   \<and> detect_pii (\<lambda>_. []) ''1234 5678 90123'' = []
   \<and> sublist ''1234 5678 9012'' ''0000 1234 5678 9012''
   \<and> detect_pii (\<lambda>_. []) ''0000 1234 5678 9012''
     = [hit ''AADHAAR'' ''0000 1234 5678'' 0.98 ''rule'']
   \<and> hit ''AADHAAR'' ''0000 1234 5678'' 0.98 ''rule''
     \<noteq> hit ''AADHAAR'' ''1234 5678 9012'' 0.98 ''rule''"
proof (intro conjI)
  show "sublist ''1234 5678 9012'' ''A1234 5678 9012''"
    and "sublist ''1234 5678 9012'' ''1234 5678 90123''"
    and "sublist ''1234 5678 9012'' ''0000 1234 5678 9012''"
    by (simp_all add: sublist_code(3))
  show "detect_pii (\<lambda>_. []) ''A1234 5678 9012'' = []"
    by (rule no_rule_hits; code_simp)
  show "detect_pii (\<lambda>_. []) ''1234 5678 90123'' = []"
    by (rule no_rule_hits; code_simp)
  have "finditer aadhaar_pattern ''0000 1234 5678 9012'' 0 = [(0, 14)]"
    and "finditer pan_pattern ''0000 1234 5678 9012'' 0 = []"
    and "finditer phone_pattern ''0000 1234 5678 9012'' 0 = []"
    and "finditer email_pattern ''0000 1234 5678 9012'' 0 = []"
    by code_simp+
  then show "detect_pii (\<lambda>_. []) ''0000 1234 5678 9012''
     = [hit ''AADHAAR'' ''0000 1234 5678'' 0.98 ''rule'']"
    by (simp add: detect_pii_def detect_pii_rules_def detect_pii_ml_def group_def)
  show "hit ''AADHAAR'' ''0000 1234 5678'' 0.98 ''rule''
     \<noteq> hit ''AADHAAR'' ''1234 5678 9012'' 0.98 ''rule''"
    by (simp add: hit_def)
qed

text \<open>
  C1, amended: for every text \<open>pre @ ''1234 5678 9012'' @ post\<close> in which the literal is
  not preceded by a word character, not followed by a word character, and not
  preceded by a group of four digits and a white space that starts at a word boundary
  (the start of the text, or a character before it that is not a word character), and
  for every recognizer, the detections contain the record with type \<^verbatim>\<open>AADHAAR\<close>, the
  literal as value, confidence 0.98 and source \<^verbatim>\<open>rule\<close>.
\<close>

theorem detect_pii_aadhaar_literal:
  assumes h1: "pre = [] \<or> \<not> is_word (last pre)"
    and h2: "\<not> (5 \<le> length pre
              \<and> list_all is_digit (take 4 (drop (length pre - 5) pre))
              \<and> is_space (last pre)
              \<and> (length pre = 5 \<or> \<not> is_word (pre ! (length pre - 6))))"
    and h3: "post = [] \<or> \<not> is_word (hd post)"
  shows "hit ''AADHAAR'' ''1234 5678 9012'' 0.98 ''rule''
         \<in> set (detect_pii nlp (pre @ ''1234 5678 9012'' @ post))"
proof -
  let ?t = "''1234 5678 9012'' @ post"
  let ?text = "pre @ ?t"
  let ?i = "length pre"
  have at: "?text ! (?i + k) = ?t ! k" for k
    by (rule nth_append_length_plus)
  have m: "match_at aadhaar_pattern ?text ?i = Some (?i + 14)"
    unfolding match_at_def ends_aadhaar_literal [OF h1 h3] by simp
  have occ: "\<forall>k<4. is_digit (?text ! (?i + k))"
    unfolding at by (rule aadhaar_literal_shape)
  have p1: "?i = 0 \<or> \<not> is_word (?text ! (?i - 1))"
    using h1 by (cases "pre = []") (simp_all add: nth_append last_conv_nth)
  have p2: "\<not> (5 \<le> ?i \<and> (\<forall>k<4. is_digit (?text ! (?i - 5 + k)))
              \<and> is_space (?text ! (?i - 1))
              \<and> (?i = 5 \<or> \<not> is_word (?text ! (?i - 6))))"
  proof
    assume a: "5 \<le> ?i \<and> (\<forall>k<4. is_digit (?text ! (?i - 5 + k)))
              \<and> is_space (?text ! (?i - 1))
              \<and> (?i = 5 \<or> \<not> is_word (?text ! (?i - 6)))"
    then have five: "5 \<le> ?i" by simp
    then have ne: "pre \<noteq> []" by auto
    have inpre: "?text ! n = pre ! n" if "n < ?i" for n
      using that by (simp add: nth_append)
    have digits: "\<forall>k<4. is_digit (pre ! (?i - 5 + k))"
    proof (intro allI impI)
      fix k :: nat
      assume k: "k < 4"
      with five have "?i - 5 + k < ?i" by simp
      then have "?text ! (?i - 5 + k) = pre ! (?i - 5 + k)" by (rule inpre)
      with a k show "is_digit (pre ! (?i - 5 + k))" by metis
    qed
    have l4: "length (take 4 (drop (?i - 5) pre)) = 4"
      using five by simp
    have "list_all is_digit (take 4 (drop (?i - 5) pre))"
      unfolding list_all_length l4
    proof (intro allI impI)
      fix k :: nat
      assume k: "k < 4"
      with five have "take 4 (drop (?i - 5) pre) ! k = pre ! (?i - 5 + k)"
        by simp
      with digits k show "is_digit (take 4 (drop (?i - 5) pre) ! k)" by simp
    qed
    moreover have "is_space (last pre)"
    proof -
      from ne have "?text ! (?i - 1) = last pre"
        by (simp add: nth_append last_conv_nth)
      with a show ?thesis by simp
    qed
    moreover have "?i = 5 \<or> \<not> is_word (pre ! (?i - 6))"
    proof (cases "?i = 5")
      case True
      then show ?thesis by simp
    next
      case False
      with five have "?i - 6 < ?i" by simp
      then have "?text ! (?i - 6) = pre ! (?i - 6)" by (rule inpre)
      with a False show ?thesis by simp
    qed
    ultimately show False using h2 five by blast
  qed
  have early: "\<forall>j<?i. \<forall>e'. match_at aadhaar_pattern ?text j = Some e' \<longrightarrow> e' \<le> ?i"
  proof (intro allI impI)
    fix j e'
    assume j: "j < ?i" and e': "match_at aadhaar_pattern ?text j = Some e'"
    show "e' \<le> ?i"
    proof (rule ccontr)
      assume far: "\<not> e' \<le> ?i"
      from e' have "e' = j + 14"
        by (simp add: match_at_def ends_aadhaar split: if_splits)
      with far have "?i < j + 14" by simp
      with occ p1 p2 j have "ends aadhaar_pattern ?text j = []"
        by (intro aadhaar_no_overlap)
      with e' show False by (simp add: match_at_def)
    qed
  qed
  have "(?i, ?i + 14) \<in> set (finditer aadhaar_pattern ?text 0)"
    using m _ early by (rule finditer_reports) simp_all
  moreover have "group ?text (?i, ?i + 14) = ''1234 5678 9012''"
    by (simp add: group_def)
  ultimately have "hit ''AADHAAR'' ''1234 5678 9012'' 0.98 ''rule''
      \<in> (\<lambda>m. hit ''AADHAAR'' (group ?text m) 0.98 ''rule'') ` set (finditer aadhaar_pattern ?text 0)"
    by (metis (no_types, lifting) image_eqI)
  then show ?thesis
    by (simp add: detect_pii_def detect_pii_rules_def)
qed

theorem detect_pii_aadhaar_literal_witness:
  "hit ''AADHAAR'' ''1234 5678 9012'' 0.98 ''rule''
     \<in> set (detect_pii (\<lambda>_. []) ''Ref 7 1234 5678 9012 PAN: ABCDE1234F'')
   \<and> hit ''AADHAAR'' ''1234 5678 9012'' 0.98 ''rule''
     \<in> set (detect_pii (\<lambda>_. []) ''1 1234 5678 9012'')"
  using detect_pii_aadhaar_literal [of "''Ref 7 ''" "'' PAN: ABCDE1234F''" "\<lambda>_. []"]
    detect_pii_aadhaar_literal [of "''1 ''" "''''" "\<lambda>_. []"]
  by (simp add: is_word_def is_digit_def is_space_def code_def)

end
